theory Spec2Isabelle
  imports Main "HOL-Library.Char_ord" "HOL-Library.List_Lexorder" "HOL-Library.Multiset"
begin

section \<open>Python values and the operations the engine uses on them\<close>

text \<open>
  The working data of a run, its configuration and a raw manifest are dictionaries with
  string keys and arbitrary JSON-like values. A dictionary is an association list in
  insertion order; a dictionary of the program has pairwise distinct keys. Strings are
  sequences of code points below 256. Floating-point values are not part of this value
  universe.
\<close>

datatype pyval =
    PNone
  | PBool bool
  | PInt int
  | PStr string
  | PList "pyval list"
  | PDict "(string \<times> pyval) list"

type_synonym pydict = "(string \<times> pyval) list"

text \<open>Truth value testing (\<open>if x\<close>, \<open>not x\<close>).\<close>

fun truthy :: "pyval \<Rightarrow> bool" where
  "truthy PNone = False"
| "truthy (PBool b) = b"
| "truthy (PInt i) = (i \<noteq> 0)"
| "truthy (PStr s) = (s \<noteq> [])"
| "truthy (PList xs) = (xs \<noteq> [])"
| "truthy (PDict d) = (d \<noteq> [])"

text \<open>\<open>d.get(k, default)\<close>, \<open>d.keys()\<close> and \<open>d[k] = v\<close>.\<close>

definition dict_get :: "(string \<times> 'a) list \<Rightarrow> string \<Rightarrow> 'a \<Rightarrow> 'a" where
  "dict_get d k dflt = (case map_of d k of None \<Rightarrow> dflt | Some v \<Rightarrow> v)"

definition dict_keys :: "(string \<times> 'a) list \<Rightarrow> string list" where
  "dict_keys d = map fst d"

fun dict_set :: "string \<Rightarrow> 'a \<Rightarrow> (string \<times> 'a) list \<Rightarrow> (string \<times> 'a) list" where
  "dict_set k v [] = [(k, v)]"
| "dict_set k v (p # d) = (if fst p = k then (k, v) # d else p # dict_set k v d)"

text \<open>\<open>sep.join(parts)\<close>.\<close>

fun str_join :: "string \<Rightarrow> string list \<Rightarrow> string" where
  "str_join sep [] = []"
| "str_join sep [x] = x"
| "str_join sep (x # y # ys) = x @ sep @ str_join sep (y # ys)"

text \<open>Decimal rendering of integers (\<open>str(n)\<close>).\<close>

definition digit_char :: "nat \<Rightarrow> char" where
  "digit_char n = char_of (48 + n)"

function str_of_nat :: "nat \<Rightarrow> string" where
  "str_of_nat n = (if n < 10 then [digit_char n] else str_of_nat (n div 10) @ [digit_char (n mod 10)])"
  by pat_completeness auto
termination
  by (relation "measure id") auto

declare str_of_nat.simps [simp del]

definition str_of_int :: "int \<Rightarrow> string" where
  "str_of_int i = (if i < 0 then CHR ''-'' # str_of_nat (nat (- i)) else str_of_nat (nat i))"

text \<open>
  \<open>repr\<close> of a string: single quotes unless the string holds a single quote and no double
  quote; the quote character and the backslash are escaped, tab, newline and carriage
  return are written with their letter, and every other non-printable code point by its
  two hexadecimal digits.
\<close>

definition hex_char :: "nat \<Rightarrow> char" where
  "hex_char n = (if n < 10 then char_of (48 + n) else char_of (87 + n))"

definition repr_quote :: "string \<Rightarrow> char" where
  "repr_quote s = (if CHR 0x27 \<in> set s \<and> CHR 0x22 \<notin> set s then CHR 0x22 else CHR 0x27)"

definition repr_char :: "char \<Rightarrow> char \<Rightarrow> string" where
  "repr_char q c =
     (let n = (of_char c :: nat) in
      if c = q \<or> c = CHR 0x5C then [CHR 0x5C, c]
      else if n = 9 then [CHR 0x5C, CHR ''t'']
      else if n = 10 then [CHR 0x5C, CHR ''n'']
      else if n = 13 then [CHR 0x5C, CHR ''r'']
      else if n < 32 \<or> (127 \<le> n \<and> n \<le> 160) \<or> n = 173
        then [CHR 0x5C, CHR ''x'', hex_char (n div 16), hex_char (n mod 16)]
      else [c])"

definition repr_str :: "string \<Rightarrow> string" where
  "repr_str s = (let q = repr_quote s in q # concat (map (repr_char q) s) @ [q])"

primrec py_repr :: "pyval \<Rightarrow> string" where
  "py_repr PNone = ''None''"
| "py_repr (PBool b) = (if b then ''True'' else ''False'')"
| "py_repr (PInt i) = str_of_int i"
| "py_repr (PStr s) = repr_str s"
| "py_repr (PList xs) = ''['' @ str_join '', '' (map py_repr xs) @ '']''"
| "py_repr (PDict d) =
     ''{'' @ str_join '', ''
        (map (\<lambda>kv. repr_str (fst kv) @ '': '' @ snd kv) (map (map_prod id py_repr) d)) @ ''}''"

text \<open>\<open>str(x)\<close>, as used by f-strings: a string is rendered as itself, everything else as \<open>repr\<close>.\<close>

definition py_str :: "pyval \<Rightarrow> string" where
  "py_str v = (case v of PStr s \<Rightarrow> s | _ \<Rightarrow> py_repr v)"

text \<open>The name of a value's type, as it appears in interpreter messages.\<close>

fun type_name :: "pyval \<Rightarrow> string" where
  "type_name PNone = ''NoneType''"
| "type_name (PBool b) = ''bool''"
| "type_name (PInt i) = ''int''"
| "type_name (PStr s) = ''str''"
| "type_name (PList xs) = ''list''"
| "type_name (PDict d) = ''dict''"

section \<open>Exceptions (core/errors.py and the built-in ones the engine meets)\<close>

text \<open>
  \<open>NonException\<close> stands for the exceptions that derive from \<open>BaseException\<close> but not from
  \<open>Exception\<close> (\<open>KeyboardInterrupt\<close>, \<open>SystemExit\<close>, \<open>asyncio.CancelledError\<close>); an
  \<open>except Exception\<close> clause does not catch them. \<open>OtherException\<close> is any further subclass
  of \<open>Exception\<close>, given by its message.
\<close>

datatype exn =
    LoopDetectedError string string
  | BudgetExhaustedError string int
  | ManifestError string
  | KeyError string
  | ValueError string
  | AttributeError string
  | TypeError string
  | OtherException string
  | NonException string

fun is_Exception :: "exn \<Rightarrow> bool" where
  "is_Exception (NonException m) = False"
| "is_Exception e = True"

text \<open>\<open>str(e)\<close>. A \<open>KeyError\<close> renders the \<open>repr\<close> of its argument.\<close>

fun exn_str :: "exn \<Rightarrow> string" where
  "exn_str (LoopDetectedError step_id fingerprint) =
     ''Loop detected: step '' @ [CHR 0x27] @ step_id @ [CHR 0x27] @
     '' repeated with fingerprint '' @ fingerprint"
| "exn_str (BudgetExhaustedError budget_name limit) =
     ''Budget '' @ [CHR 0x27] @ budget_name @ [CHR 0x27] @
     '' exhausted (limit: '' @ str_of_int limit @ '')''"
| "exn_str (ManifestError m) = m"
| "exn_str (KeyError k) = repr_str k"
| "exn_str (ValueError m) = m"
| "exn_str (AttributeError m) = m"
| "exn_str (TypeError m) = m"
| "exn_str (OtherException m) = m"
| "exn_str (NonException m) = m"

text \<open>\<open>len(x)\<close> and \<open>x.get(k)\<close> on an arbitrary value.\<close>

fun py_len :: "pyval \<Rightarrow> exn + nat" where
  "py_len (PStr s) = Inr (length s)"
| "py_len (PList xs) = Inr (length xs)"
| "py_len (PDict d) = Inr (length d)"
| "py_len v =
     Inl (TypeError (''object of type '' @ [CHR 0x27] @ type_name v @ [CHR 0x27] @ '' has no len()''))"

fun py_get :: "pyval \<Rightarrow> string \<Rightarrow> exn + pyval" where
  "py_get (PDict d) k = Inr (dict_get d k PNone)"
| "py_get v k =
     Inl (AttributeError ([CHR 0x27] @ type_name v @ [CHR 0x27] @
          '' object has no attribute '' @ [CHR 0x27] @ ''get'' @ [CHR 0x27]))"

section \<open>Core data models (core/models.py)\<close>

datatype RunStatus = Run_Pending | Run_Running | Completed | Run_Failed

datatype StepStatus = Step_Pending | Step_Running | Passed | Failed

record SpecResult =
  rule_id :: string
  passed :: bool
  message :: string
  suggested_fix :: string
  tags :: "string list"

record Context =
  run_id :: string
  data :: pydict
  artifacts :: pydict
  trace :: "pydict list"
  budgets :: "(string \<times> int) list"
  config :: pydict

text \<open>
  \<open>Context.snapshot_data\<close> sends \<open>data\<close> through \<open>json.dumps\<close> and \<open>json.loads\<close>. On the
  values of \<^typ>\<open>pyval\<close> (string keys, no floats, no foreign objects) the round trip
  returns an equal, independent copy.
\<close>

definition snapshot_data :: "Context \<Rightarrow> pydict" where
  "snapshot_data c = data c"

text \<open>
  One attempt of one step. The time stamps \<open>started_at\<close> and \<open>finished_at\<close> are left out:
  the clock is not part of the model.
\<close>

record StepAttempt =
  step_id :: string
  agent_id :: string
  attempt :: int
  status :: StepStatus
  pre_results :: "SpecResult list"
  post_results :: "SpecResult list"
  invariant_results :: "SpecResult list"
  context_before :: pydict
  context_after :: pydict
  fingerprint :: string
  error :: "string option"

record RunRecord =
  r_run_id :: string
  manifest_name :: string
  r_status :: RunStatus
  r_steps :: "StepAttempt list"
  r_error :: "string option"
  input_folder :: pyval
  output_folder :: pyval
  model_name :: pyval

subsection \<open>The canonical encoding behind the fingerprint\<close>

text \<open>
  \<open>json.dumps\<close> with its default \<open>ensure_ascii\<close>: inside a string the double quote and the
  backslash are escaped, backspace, form feed, newline, carriage return and tab have their
  letter, and every other code point outside the range from space to tilde is written
  with four hexadecimal digits.
\<close>

definition json_char :: "char \<Rightarrow> string" where
  "json_char c =
     (let n = (of_char c :: nat) in
      if c = CHR 0x22 then [CHR 0x5C, CHR 0x22]
      else if c = CHR 0x5C then [CHR 0x5C, CHR 0x5C]
      else if n = 8 then [CHR 0x5C, CHR ''b'']
      else if n = 12 then [CHR 0x5C, CHR ''f'']
      else if n = 10 then [CHR 0x5C, CHR ''n'']
      else if n = 13 then [CHR 0x5C, CHR ''r'']
      else if n = 9 then [CHR 0x5C, CHR ''t'']
      else if n < 32 \<or> 126 < n
        then [CHR 0x5C, CHR ''u'', CHR ''0'', CHR ''0'', hex_char (n div 16), hex_char (n mod 16)]
      else [c])"

definition json_str :: "string \<Rightarrow> string" where
  "json_str s = CHR 0x22 # concat (map json_char s) @ [CHR 0x22]"

definition json_str_list :: "string list \<Rightarrow> string" where
  "json_str_list xs = ''['' @ str_join '', '' (map json_str xs) @ '']''"

text \<open>
  The string that is hashed: the dictionary of \<open>step_id\<close>, the sorted keys of the context
  data and the sorted failed rule ids, dumped with \<open>sort_keys=True\<close>, so in the order
  \<open>data_keys\<close>, \<open>failed_rules\<close>, \<open>step_id\<close>. \<open>sorted\<close> orders strings by code point, as the
  lexicographic order on \<^typ>\<open>string\<close> does.
\<close>

definition canonical :: "string \<Rightarrow> pydict \<Rightarrow> string list \<Rightarrow> string" where
  "canonical sid context_data failed_rule_ids =
     ''{'' @ json_str ''data_keys'' @ '': '' @ json_str_list (sort (dict_keys context_data)) @ '', '' @
             json_str ''failed_rules'' @ '': '' @ json_str_list (sort failed_rule_ids) @ '', '' @
             json_str ''step_id'' @ '': '' @ json_str sid @ ''}''"

text \<open>
  \<open>StepAttempt.compute_fingerprint\<close>. The digest \<open>hashlib.sha256(...).hexdigest()\<close> belongs to
  the Python standard library, not to this repository; it is the parameter
  \<open>sha256_hexdigest\<close>, a function from the encoded string to its hexadecimal digest.
\<close>

definition compute_fingerprint ::
  "(string \<Rightarrow> string) \<Rightarrow> string \<Rightarrow> pydict \<Rightarrow> string list \<Rightarrow> string" where
  "compute_fingerprint sha256_hexdigest sid context_data failed_rule_ids =
     take 16 (sha256_hexdigest (canonical sid context_data failed_rule_ids))"

section \<open>Specification functions (core/specs.py)\<close>

text \<open>
  A spec function receives the context object. It returns a \<open>SpecResult\<close> or raises, and
  since it holds a reference to the context, the context as it is after the call is part
  of its outcome.
\<close>

type_synonym spec_fn = "Context \<Rightarrow> (exn + SpecResult) \<times> Context"

type_synonym spec_registry = "(string \<times> spec_fn) list"

definition get_spec :: "spec_registry \<Rightarrow> string \<Rightarrow> exn + spec_fn" where
  "get_spec registry nm =
     (case map_of registry nm of
        None \<Rightarrow> Inl (KeyError (''Unknown spec: '' @ [CHR 0x27] @ nm @ [CHR 0x27] @ ''. Available: '' @
                               py_repr (PList (map PStr (dict_keys registry)))))
      | Some fn \<Rightarrow> Inr fn)"

text \<open>
  The loop of \<open>evaluate_specs\<close>: look the name up, call the function, append its result.
  An exception of the lookup or of the function ends the loop.
\<close>

fun evaluate_loop ::
  "spec_registry \<Rightarrow> string list \<Rightarrow> Context \<Rightarrow> SpecResult list \<Rightarrow> (exn + SpecResult list) \<times> Context" where
  "evaluate_loop registry [] context results = (Inr results, context)"
| "evaluate_loop registry (nm # names) context results =
     (case get_spec registry nm of
        Inl e \<Rightarrow> (Inl e, context)
      | Inr fn \<Rightarrow>
          (case fn context of
             (Inl e, context') \<Rightarrow> (Inl e, context')
           | (Inr r, context') \<Rightarrow> evaluate_loop registry names context' (results @ [r])))"

definition evaluate_specs ::
  "spec_registry \<Rightarrow> string list \<Rightarrow> Context \<Rightarrow> (exn + SpecResult list) \<times> Context" where
  "evaluate_specs registry names context = evaluate_loop registry names context []"

definition all_passed :: "SpecResult list \<Rightarrow> bool" where
  "all_passed results = list_all passed results"

subsection \<open>The registered specs\<close>

definition is_list :: "pyval \<Rightarrow> bool" where
  "is_list v = (case v of PList xs \<Rightarrow> True | _ \<Rightarrow> False)"

definition intake_pre :: spec_fn where
  "intake_pre context =
     (let folder = dict_get (data context) ''input_folder'' (PStr '''') in
      if \<not> truthy folder then
        (Inr \<lparr>rule_id = ''intake_pre'', passed = False,
              message = ''input_folder is not set in context.data'',
              suggested_fix = ''Set context.data['' @ [CHR 0x27] @ ''input_folder'' @ [CHR 0x27] @
                              ''] to a valid directory path'',
              tags = [''pre'', ''intake'']\<rparr>, context)
      else
        (Inr \<lparr>rule_id = ''intake_pre'', passed = True,
              message = ''input_folder is set: '' @ py_str folder,
              suggested_fix = '''',
              tags = [''pre'', ''intake'']\<rparr>, context))"

definition intake_post :: spec_fn where
  "intake_post context =
     (let files = dict_get (data context) ''loaded_files'' (PList []) in
      if \<not> is_list files \<or> py_len files = Inr 0 then
        (Inr \<lparr>rule_id = ''intake_post'', passed = False,
              message = ''No files were loaded'',
              suggested_fix = ''Ensure input_folder contains .txt or .md files'',
              tags = [''post'', ''intake'']\<rparr>, context)
      else
        (case py_len files of
           Inl e \<Rightarrow> (Inl e, context)
         | Inr n \<Rightarrow>
             (Inr \<lparr>rule_id = ''intake_post'', passed = True,
                   message = str_of_nat n @ '' file(s) loaded'',
                   suggested_fix = '''',
                   tags = [''post'', ''intake'']\<rparr>, context)))"

definition extract_pre :: spec_fn where
  "extract_pre context =
     (let files = dict_get (data context) ''loaded_files'' (PList []);
          api_key = dict_get (config context) ''api_key'' (PStr '''') in
      if \<not> truthy files then
        (Inr \<lparr>rule_id = ''extract_pre'', passed = False,
              message = ''No loaded_files in context'',
              suggested_fix = ''Run the intake step first to load files'',
              tags = [''pre'', ''extract'']\<rparr>, context)
      else if \<not> truthy api_key then
        (Inr \<lparr>rule_id = ''extract_pre'', passed = False,
              message = ''api_key is not configured'',
              suggested_fix = ''Set the OpenAI API key in settings'',
              tags = [''pre'', ''extract'', ''config'']\<rparr>, context)
      else
        (case py_len files of
           Inl e \<Rightarrow> (Inl e, context)
         | Inr n \<Rightarrow>
             (Inr \<lparr>rule_id = ''extract_pre'', passed = True,
                   message = str_of_nat n @ '' file(s) ready, API key configured'',
                   suggested_fix = '''',
                   tags = [''pre'', ''extract'']\<rparr>, context)))"

text \<open>
  The comprehension \<open>[i for i, item in enumerate(items) if not item.get("title")]\<close>: the
  first item without a \<open>get\<close> method raises.
\<close>

fun missing_titles :: "nat \<Rightarrow> pyval list \<Rightarrow> exn + nat list" where
  "missing_titles i [] = Inr []"
| "missing_titles i (item # items) =
     (case py_get item ''title'' of
        Inl e \<Rightarrow> Inl e
      | Inr t \<Rightarrow>
          (case missing_titles (Suc i) items of
             Inl e \<Rightarrow> Inl e
           | Inr r \<Rightarrow> Inr (if \<not> truthy t then i # r else r)))"

definition extract_post :: spec_fn where
  "extract_post context =
     (case dict_get (data context) ''extracted_items'' (PList []) of
        PList items \<Rightarrow>
          (if length items = 0 then
             (Inr \<lparr>rule_id = ''extract_post'', passed = False,
                   message = ''No items were extracted'',
                   suggested_fix = ''Check LLM response format or input file content'',
                   tags = [''post'', ''extract'']\<rparr>, context)
           else
             (case missing_titles 0 items of
                Inl e \<Rightarrow> (Inl e, context)
              | Inr missing \<Rightarrow>
                  (if missing \<noteq> [] then
                     (Inr \<lparr>rule_id = ''extract_post'', passed = False,
                           message = ''Items at indices '' @
                                     py_str (PList (map (\<lambda>i. PInt (int i)) missing)) @
                                     '' have no title'',
                           suggested_fix = ''Ensure LLM prompt requires a title for each item'',
                           tags = [''post'', ''extract'', ''schema'']\<rparr>, context)
                   else
                     (Inr \<lparr>rule_id = ''extract_post'', passed = True,
                           message = str_of_nat (length items) @ '' item(s) extracted, all with titles'',
                           suggested_fix = '''',
                           tags = [''post'', ''extract'']\<rparr>, context))))
      | _ \<Rightarrow>
          (Inr \<lparr>rule_id = ''extract_post'', passed = False,
                message = ''No items were extracted'',
                suggested_fix = ''Check LLM response format or input file content'',
                tags = [''post'', ''extract'']\<rparr>, context))"

definition write_pre :: spec_fn where
  "write_pre context =
     (let items = dict_get (data context) ''extracted_items'' (PList []);
          folder = dict_get (data context) ''output_folder'' (PStr '''') in
      if \<not> truthy items then
        (Inr \<lparr>rule_id = ''write_pre'', passed = False,
              message = ''No extracted_items to write'',
              suggested_fix = ''Run the extract step first'',
              tags = [''pre'', ''write'']\<rparr>, context)
      else if \<not> truthy folder then
        (Inr \<lparr>rule_id = ''write_pre'', passed = False,
              message = ''output_folder is not set'',
              suggested_fix = ''Set context.data['' @ [CHR 0x27] @ ''output_folder'' @ [CHR 0x27] @
                              ''] to a valid directory path'',
              tags = [''pre'', ''write'']\<rparr>, context)
      else
        (case py_len items of
           Inl e \<Rightarrow> (Inl e, context)
         | Inr n \<Rightarrow>
             (Inr \<lparr>rule_id = ''write_pre'', passed = True,
                   message = str_of_nat n @ '' item(s) ready, output_folder set: '' @ py_str folder,
                   suggested_fix = '''',
                   tags = [''pre'', ''write'']\<rparr>, context)))"

definition write_post :: spec_fn where
  "write_post context =
     (let written = dict_get (data context) ''written_files'' (PList []) in
      if \<not> is_list written \<or> py_len written = Inr 0 then
        (Inr \<lparr>rule_id = ''write_post'', passed = False,
              message = ''No files were written'',
              suggested_fix = ''Check output_folder permissions and disk space'',
              tags = [''post'', ''write'']\<rparr>, context)
      else
        (case py_len written of
           Inl e \<Rightarrow> (Inl e, context)
         | Inr n \<Rightarrow>
             (Inr \<lparr>rule_id = ''write_post'', passed = True,
                   message = str_of_nat n @ '' file(s) written'',
                   suggested_fix = '''',
                   tags = [''post'', ''write'']\<rparr>, context)))"

definition global_invariant :: spec_fn where
  "global_invariant context =
     (if run_id context = [] then
        (Inr \<lparr>rule_id = ''global_invariant'', passed = False,
              message = ''run_id is missing from context'',
              suggested_fix = ''This is an internal error - context was not initialized properly'',
              tags = [''invariant'']\<rparr>, context)
      else
        (Inr \<lparr>rule_id = ''global_invariant'', passed = True,
              message = ''run_id='' @ take 8 (run_id context) @ ''...'',
              suggested_fix = '''',
              tags = [''invariant'']\<rparr>, context))"

text \<open>
  \<open>pipeline_progress\<close> adds 0.33, 0.33 and 0.34 and prints the sum as a percentage without
  decimals. The sums that can occur print as 0, 33, 34, 66, 67 and 100 percent, so the score
  is counted in whole percent here.
\<close>

definition pipeline_progress :: spec_fn where
  "pipeline_progress context =
     (let score = (0::nat);
          score = (if truthy (dict_get (data context) ''loaded_files'' PNone) then score + 33 else score);
          score = (if truthy (dict_get (data context) ''extracted_items'' PNone) then score + 33 else score);
          score = (if truthy (dict_get (data context) ''written_files'' PNone) then score + 34 else score) in
      (Inr \<lparr>rule_id = ''pipeline_progress'', passed = True,
            message = ''Progress: '' @ str_of_nat score @ ''%'',
            suggested_fix = '''',
            tags = [''progress'']\<rparr>, context))"

text \<open>The registry as the decorators fill it when the module is imported.\<close>

definition SPEC_REGISTRY :: spec_registry where
  "SPEC_REGISTRY =
     [(''intake_pre'', intake_pre), (''intake_post'', intake_post),
      (''extract_pre'', extract_pre), (''extract_post'', extract_post),
      (''write_pre'', write_pre), (''write_post'', write_post),
      (''global_invariant'', global_invariant), (''pipeline_progress'', pipeline_progress)]"

section \<open>Router (core/router.py)\<close>

text \<open>
  An edge of the workflow graph. The source keeps the condition as a plain string
  (\<open>"on_pass"\<close>, \<open>"on_fail"\<close>, \<open>"always"\<close>); any other string is a condition that never
  matches.
\<close>

record Edge =
  from_step :: string
  to_step :: string
  condition :: string

text \<open>
  The loop of \<open>Router.next_step\<close>: edges are scanned in declaration order and the first
  edge whose \<open>from_step\<close> is the current step and whose condition is the wanted one or
  \<open>"always"\<close> decides.
\<close>

fun next_step_scan :: "Edge list \<Rightarrow> string \<Rightarrow> string \<Rightarrow> string option" where
  "next_step_scan [] current_step cond = None"
| "next_step_scan (edge # edges) current_step cond =
     (if from_step edge = current_step
      then (if condition edge = cond \<or> condition edge = ''always''
            then Some (to_step edge)
            else next_step_scan edges current_step cond)
      else next_step_scan edges current_step cond)"

definition next_step :: "Edge list \<Rightarrow> string \<Rightarrow> bool \<Rightarrow> string option" where
  "next_step edges current_step step_passed =
     (let cond = (if step_passed then ''on_pass'' else ''on_fail'')
      in next_step_scan edges current_step cond)"

section \<open>Step definitions, manifest and agents (core/steps.py, core/manifest.py, core/agents.py)\<close>

text \<open>
  \<open>RetryPolicy.delay_seconds\<close> only feeds the pause between two attempts; time is not part
  of the model and the field is left out.
\<close>

record RetryPolicy =
  max_attempts :: int

record StepDefinition =
  name :: string
  agent_name :: string
  pre_specs :: "string list"
  post_specs :: "string list"
  invariant_specs :: "string list"
  retry :: RetryPolicy

record Manifest =
  m_name :: string
  description :: pyval
  version :: pyval
  entry_step :: string
  steps :: "(string \<times> StepDefinition) list"
  edges :: "Edge list"
  defaults :: pyval
  m_budgets :: pyval

text \<open>
  An agent receives the context object and works on it and on the world outside the
  engine (files, the language model). The state of that world is the type parameter
  \<open>'w\<close>. The agent returns normally (\<open>None\<close>) or raises; in both cases the context and the
  world are left as the agent made them. Agents return the context object they were
  given, as every agent of the repository does.
\<close>

type_synonym 'w agent_fn = "Context \<Rightarrow> 'w \<Rightarrow> exn option \<times> Context \<times> 'w"

type_synonym 'w agent_registry = "(string \<times> 'w agent_fn) list"

definition get_agent :: "'w agent_registry \<Rightarrow> string \<Rightarrow> exn + 'w agent_fn" where
  "get_agent registry nm =
     (case map_of registry nm of
        None \<Rightarrow> Inl (ValueError (''Unknown agent: '' @ [CHR 0x27] @ nm @ [CHR 0x27] @ ''. Available: '' @
                                 py_repr (PList (map PStr (dict_keys registry)))))
      | Some cls \<Rightarrow> Inr cls)"

section \<open>Orchestrator (core/orchestrator.py)\<close>

text \<open>
  The orchestrator object holds the manifest; its router is built from the manifest's
  edges. The record also carries what the code reaches through module-level names: the two
  registries and the digest function. The database connection appears as \<open>insert_item\<close>,
  the reaction of the database to the \<open>INSERT\<close> statement of \<open>ItemRepository.save_items\<close> for
  one item of a run: \<open>None\<close> when the row is stored, or the exception it raises. The other
  database writes take values the engine computes itself and are taken to succeed, and
  the optional progress callback is absent, as it is by default.
\<close>

record 'w Orchestrator =
  manifest :: Manifest
  spec_registry :: spec_registry
  agent_registry :: "'w agent_registry"
  sha256_hexdigest :: "string \<Rightarrow> string"
  insert_item :: "string \<Rightarrow> pydict \<Rightarrow> exn option"

text \<open>
  \<open>ItemRepository.save_items\<close> (db/repository.py): the loop \<open>for item in items\<close> reads the
  fields of each item with \<open>item.get\<close> and inserts a row. A value that cannot be iterated
  raises \<open>TypeError\<close>; an item without a \<open>get\<close> method raises \<open>AttributeError\<close>. Iterating a
  string yields its characters, iterating a dictionary its keys.
\<close>

fun save_items_loop :: "(string \<Rightarrow> pydict \<Rightarrow> exn option) \<Rightarrow> string \<Rightarrow> pyval list \<Rightarrow> exn option" where
  "save_items_loop ins rid [] = None"
| "save_items_loop ins rid (item # items) =
     (case py_get item ''title'' of
        Inl e \<Rightarrow> Some e
      | Inr t \<Rightarrow>
          (case item of
             PDict d \<Rightarrow>
               (case ins rid d of
                  Some e \<Rightarrow> Some e
                | None \<Rightarrow> save_items_loop ins rid items)
           | _ \<Rightarrow> save_items_loop ins rid items))"

definition save_items :: "(string \<Rightarrow> pydict \<Rightarrow> exn option) \<Rightarrow> string \<Rightarrow> pyval \<Rightarrow> exn option" where
  "save_items ins rid items =
     (case items of
        PList xs \<Rightarrow> save_items_loop ins rid xs
      | PStr s \<Rightarrow> save_items_loop ins rid (map (\<lambda>c. PStr [c]) s)
      | PDict d \<Rightarrow> save_items_loop ins rid (map (\<lambda>kv. PStr (fst kv)) d)
      | _ \<Rightarrow> Some (TypeError ([CHR 0x27] @ type_name items @ [CHR 0x27] @ '' object is not iterable'')))"

type_synonym fingerprints = "(string \<times> string set) list"

text \<open>The text \<open>"; ".join(f"{r.rule_id}: {r.message}" for r in failed)\<close> over the failing results.\<close>

definition error_msg :: "SpecResult list \<Rightarrow> string" where
  "error_msg results =
     str_join ''; '' (map (\<lambda>r. rule_id r @ '': '' @ message r) (filter (\<lambda>r. \<not> passed r) results))"

text \<open>
  The two \<open>except\<close> clauses of \<open>_execute_step_attempt\<close>: a loop or budget error is raised
  again, any other \<open>Exception\<close> turns the attempt into a failed one that carries the
  message, and an exception outside \<open>Exception\<close> is not caught.
\<close>

definition handle_exn :: "exn \<Rightarrow> StepAttempt \<Rightarrow> exn + StepAttempt" where
  "handle_exn e result =
     (case e of
        LoopDetectedError s f \<Rightarrow> Inl e
      | BudgetExhaustedError b l \<Rightarrow> Inl e
      | NonException m \<Rightarrow> Inl e
      | _ \<Rightarrow> Inr (result\<lparr>status := Failed, error := Some (exn_str e)\<rparr>))"

text \<open>Step 7 and 8: invariant specs, then success.\<close>

definition invariant_stage ::
  "'w Orchestrator \<Rightarrow> Context \<Rightarrow> 'w \<Rightarrow> StepDefinition \<Rightarrow> StepAttempt \<Rightarrow> fingerprints \<Rightarrow>
   (exn + StepAttempt) \<times> Context \<times> 'w \<times> fingerprints" where
  "invariant_stage orch context world step_def result seen =
     (if invariant_specs step_def \<noteq> [] then
        (case evaluate_specs (spec_registry orch) (invariant_specs step_def) context of
           (Inl e, context) \<Rightarrow> (handle_exn e result, context, world, seen)
         | (Inr inv_results, context) \<Rightarrow>
             (let result = result\<lparr>invariant_results := inv_results\<rparr> in
              if \<not> all_passed inv_results then
                (Inr (result\<lparr>status := Failed,
                             error := Some (''Invariant failed: '' @ error_msg inv_results)\<rparr>),
                 context, world, seen)
              else (Inr (result\<lparr>status := Passed\<rparr>), context, world, seen)))
      else (Inr (result\<lparr>status := Passed\<rparr>), context, world, seen))"

text \<open>Step 6: post specs; on failure the fingerprint is computed, checked and recorded.\<close>

definition post_stage ::
  "'w Orchestrator \<Rightarrow> Context \<Rightarrow> 'w \<Rightarrow> StepDefinition \<Rightarrow> StepAttempt \<Rightarrow> fingerprints \<Rightarrow>
   (exn + StepAttempt) \<times> Context \<times> 'w \<times> fingerprints" where
  "post_stage orch context world step_def result seen =
     (if post_specs step_def \<noteq> [] then
        (case evaluate_specs (spec_registry orch) (post_specs step_def) context of
           (Inl e, context) \<Rightarrow> (handle_exn e result, context, world, seen)
         | (Inr post, context) \<Rightarrow>
             (let result = result\<lparr>post_results := post\<rparr> in
              if \<not> all_passed post then
                (let failed = filter (\<lambda>r. \<not> passed r) post;
                     result = result\<lparr>status := Failed,
                                     error := Some (''Post-spec failed: '' @ error_msg post)\<rparr>;
                     failed_ids = map rule_id failed;
                     fp = compute_fingerprint (sha256_hexdigest orch) (name step_def)
                            (snapshot_data context) failed_ids;
                     result = result\<lparr>fingerprint := fp\<rparr>;
                     seen = (if name step_def \<notin> set (dict_keys seen)
                             then dict_set (name step_def) {} seen else seen)
                 in if fp \<in> dict_get seen (name step_def) {}
                    then (Inl (LoopDetectedError (name step_def) fp), context, world, seen)
                    else (Inr result, context, world,
                          dict_set (name step_def) (insert fp (dict_get seen (name step_def) {})) seen))
              else invariant_stage orch context world step_def result seen))
      else invariant_stage orch context world step_def result seen)"

text \<open>Steps 3 to 5: look the agent up, run it, snapshot the data it leaves.\<close>

definition agent_stage ::
  "'w Orchestrator \<Rightarrow> Context \<Rightarrow> 'w \<Rightarrow> StepDefinition \<Rightarrow> StepAttempt \<Rightarrow> fingerprints \<Rightarrow>
   (exn + StepAttempt) \<times> Context \<times> 'w \<times> fingerprints" where
  "agent_stage orch context world step_def result seen =
     (case get_agent (agent_registry orch) (agent_name step_def) of
        Inl e \<Rightarrow> (handle_exn e result, context, world, seen)
      | Inr agent \<Rightarrow>
          (case agent context world of
             (Some e, context, world) \<Rightarrow> (handle_exn e result, context, world, seen)
           | (None, context, world) \<Rightarrow>
               post_stage orch context world step_def
                 (result\<lparr>context_after := snapshot_data context\<rparr>) seen))"

text \<open>
  \<open>Orchestrator._execute_step_attempt\<close>: steps 1 and 2 (snapshot before, pre specs), then
  the stages above. The outcome is the attempt record or the exception that leaves the
  method, with the context, the world and the fingerprint table as the call leaves them.
\<close>

definition execute_step_attempt ::
  "'w Orchestrator \<Rightarrow> Context \<Rightarrow> 'w \<Rightarrow> StepDefinition \<Rightarrow> int \<Rightarrow> fingerprints \<Rightarrow>
   (exn + StepAttempt) \<times> Context \<times> 'w \<times> fingerprints" where
  "execute_step_attempt orch context world step_def att seen =
     (let result = \<lparr>step_id = name step_def, agent_id = agent_name step_def, attempt = att,
                     status = Step_Running, pre_results = [], post_results = [],
                     invariant_results = [], context_before = [], context_after = [],
                     fingerprint = '''', error = None\<rparr>;
          result = result\<lparr>context_before := snapshot_data context\<rparr>
      in if pre_specs step_def \<noteq> [] then
           (case evaluate_specs (spec_registry orch) (pre_specs step_def) context of
              (Inl e, context) \<Rightarrow> (handle_exn e result, context, world, seen)
            | (Inr pre, context) \<Rightarrow>
                (let result = result\<lparr>pre_results := pre\<rparr> in
                 if \<not> all_passed pre then
                   (Inr (result\<lparr>status := Failed,
                                error := Some (''Pre-spec failed: '' @ error_msg pre)\<rparr>),
                    context, world, seen)
                 else agent_stage orch context world step_def result seen))
         else agent_stage orch context world step_def result seen)"

text \<open>
  The attempts of one step: the \<open>for\<close> loop over \<open>range(1, max_attempts + 1)\<close>, here over
  the list of the attempt numbers still to come. The result is the exception that left
  the loop (if any), whether the step passed, and the context, world, fingerprint table
  and recorded attempts at that point.
\<close>

fun attempt_loop ::
  "'w Orchestrator \<Rightarrow> StepDefinition \<Rightarrow> int list \<Rightarrow> Context \<Rightarrow> 'w \<Rightarrow> fingerprints \<Rightarrow>
   StepAttempt list \<Rightarrow> exn option \<times> bool \<times> Context \<times> 'w \<times> fingerprints \<times> StepAttempt list" where
  "attempt_loop orch step_def [] context world seen recorded =
     (None, False, context, world, seen, recorded)"
| "attempt_loop orch step_def (att # atts) context world seen recorded =
     (case execute_step_attempt orch context world step_def att seen of
        (Inl e, context, world, seen) \<Rightarrow> (Some e, False, context, world, seen, recorded)
      | (Inr attempt_result, context, world, seen) \<Rightarrow>
          (let recorded = recorded @ [attempt_result] in
           if status attempt_result = Passed then (None, True, context, world, seen, recorded)
           else if att < max_attempts (retry step_def) then
             attempt_loop orch step_def atts
               (context\<lparr>data :=
                  dict_set ''_retry_attempt'' (PInt (att + 1))
                    (dict_set ''_last_failed_step'' (PStr (name step_def))
                      (dict_set ''_last_error''
                         (case error attempt_result of None \<Rightarrow> PNone | Some m \<Rightarrow> PStr m)
                         (data context)))\<rparr>)
               world seen recorded
           else attempt_loop orch step_def atts context world seen recorded))"

text \<open>
  The state of the \<open>while\<close> loop of \<open>Orchestrator.run\<close>: the current step name, the
  context, the world, the fingerprint table, the number of completed steps and the attempts
  recorded so far. What the loop leaves behind when it ends: the exception that ended it
  (\<open>None\<close> when the loop condition became false), the recorded attempts, context and world.
\<close>

type_synonym 'w loop_state =
  "string option \<times> Context \<times> 'w \<times> fingerprints \<times> int \<times> StepAttempt list"

type_synonym 'w loop_result = "exn option \<times> StepAttempt list \<times> Context \<times> 'w"

text \<open>
  One round of the loop: the test of the loop condition and, if it holds, the loop body.
  \<open>Inl\<close> is the end of the loop, \<open>Inr\<close> the state for the next round.
\<close>

definition run_iteration :: "'w Orchestrator \<Rightarrow> 'w loop_state \<Rightarrow> 'w loop_result + 'w loop_state" where
  "run_iteration orch s =
     (case s of (current_step_name, context, world, seen, completed_steps, recorded) \<Rightarrow>
        (case current_step_name of
           None \<Rightarrow> Inl (None, recorded, context, world)
         | Some current \<Rightarrow>
             if current = [] \<or> current = ''__end__'' then Inl (None, recorded, context, world)
             else
               (case map_of (steps (manifest orch)) current of
                  None \<Rightarrow>
                    Inl (Some (ValueError (''Step '' @ [CHR 0x27] @ current @ [CHR 0x27] @
                                           '' not found in manifest'')),
                         recorded, context, world)
                | Some step_def \<Rightarrow>
                    if completed_steps \<ge> dict_get (budgets context) ''max_total_steps'' 20 then
                      (case map_of (budgets context) ''max_total_steps'' of
                         None \<Rightarrow> Inl (Some (KeyError ''max_total_steps''), recorded, context, world)
                       | Some limit \<Rightarrow>
                           Inl (Some (BudgetExhaustedError ''max_total_steps'' limit),
                                recorded, context, world))
                    else
                      (case attempt_loop orch step_def [1 .. max_attempts (retry step_def)]
                              context world seen recorded of
                         (Some e, step_passed, context, world, seen, recorded) \<Rightarrow>
                           Inl (Some e, recorded, context, world)
                       | (None, step_passed, context, world, seen, recorded) \<Rightarrow>
                           Inr (next_step (edges (manifest orch)) current step_passed,
                                context, world, seen,
                                (if step_passed then completed_steps + 1 else completed_steps),
                                recorded)))))"

text \<open>
  The loop itself. It need not end, so its result is an option: \<open>None\<close> means that the
  loop runs forever.
\<close>

partial_function (option) run_loop :: "'w Orchestrator \<Rightarrow> 'w loop_state \<Rightarrow> 'w loop_result option" where
  "run_loop orch s =
     (case run_iteration orch s of
        Inl r \<Rightarrow> Some r
      | Inr s' \<Rightarrow> run_loop orch s')"

declare run_loop.simps [code]

text \<open>
  \<open>Orchestrator.run\<close>: the record is created and the body of \<open>try\<close> runs: the loop and,
  when the loop ends by itself, the saving of the extracted items if there are any. Both
  \<open>except\<close> clauses mark the record failed with the message of the exception. An exception
  outside \<open>Exception\<close> leaves \<open>run\<close>. The result is \<open>None\<close> when the loop never ends.
\<close>

definition run ::
  "'w Orchestrator \<Rightarrow> Context \<Rightarrow> 'w \<Rightarrow> ((exn + RunRecord) \<times> Context \<times> 'w) option" where
  "run orch context world =
     (let record = \<lparr>r_run_id = run_id context, manifest_name = m_name (manifest orch),
                     r_status = Run_Running, r_steps = [], r_error = None,
                     input_folder = dict_get (data context) ''input_folder'' (PStr []),
                     output_folder = dict_get (data context) ''output_folder'' (PStr []),
                     model_name = dict_get (config context) ''model'' (PStr ''gpt-4o'')\<rparr>
      in case run_loop orch (Some (entry_step (manifest orch)), context, world, [], 0, []) of
           None \<Rightarrow> None
         | Some (loop_exn, recorded, context, world) \<Rightarrow>
             (let raised =
                (case loop_exn of
                   Some e \<Rightarrow> Some e
                 | None \<Rightarrow>
                     (let items = dict_get (data context) ''extracted_items'' (PList []) in
                      if truthy items then save_items (insert_item orch) (run_id context) items
                      else None))
              in case raised of
                   None \<Rightarrow>
                     Some (Inr (record\<lparr>r_steps := recorded, r_status := Completed\<rparr>),
                           context, world)
                 | Some e \<Rightarrow>
                     if is_Exception e then
                       Some (Inr (record\<lparr>r_steps := recorded, r_status := Run_Failed,
                                         r_error := Some (exn_str e)\<rparr>), context, world)
                     else Some (Inl e, context, world)))"

text \<open>
  A bounded number of rounds of the loop, used to reason about it: \<open>Inl\<close> when the loop
  has ended within \<open>n\<close> rounds, \<open>Inr\<close> with the state after \<open>n\<close> rounds otherwise.
\<close>

fun run_iterations :: "nat \<Rightarrow> 'w Orchestrator \<Rightarrow> 'w loop_state \<Rightarrow> 'w loop_result + 'w loop_state" where
  "run_iterations 0 orch s = Inr s"
| "run_iterations (Suc n) orch s =
     (case run_iteration orch s of
        Inl r \<Rightarrow> Inl r
      | Inr s' \<Rightarrow> run_iterations n orch s')"

section \<open>Properties of the router\<close>

lemma next_step_scan_None:
  "next_step_scan edge_list cur c = None \<longleftrightarrow>
     (\<forall>e \<in> set edge_list. \<not> (from_step e = cur \<and> (condition e = c \<or> condition e = ''always'')))"
  by (induction edge_list) auto

lemma next_step_scan_Some:
  "next_step_scan edge_list cur c = Some t \<longleftrightarrow>
     (\<exists>i < length edge_list.
        from_step (edge_list ! i) = cur \<and> (condition (edge_list ! i) = c \<or> condition (edge_list ! i) = ''always'') \<and>
        to_step (edge_list ! i) = t \<and>
        (\<forall>j < i. \<not> (from_step (edge_list ! j) = cur \<and>
                      (condition (edge_list ! j) = c \<or> condition (edge_list ! j) = ''always''))))"
proof (induction edge_list)
  case Nil
  show ?case by simp
next
  case (Cons e es)
  let ?m = "\<lambda>x. from_step x = cur \<and> (condition x = c \<or> condition x = ''always'')"
  show ?case
  proof (cases "?m e")
    case True
    have "(\<exists>i < length (e # es). ?m ((e # es) ! i) \<and> to_step ((e # es) ! i) = t \<and>
             (\<forall>j < i. \<not> ?m ((e # es) ! j))) \<longleftrightarrow> to_step e = t"
    proof
      assume "\<exists>i < length (e # es). ?m ((e # es) ! i) \<and> to_step ((e # es) ! i) = t \<and>
                (\<forall>j < i. \<not> ?m ((e # es) ! j))"
      then obtain i where i: "?m ((e # es) ! i)" "to_step ((e # es) ! i) = t"
        "\<forall>j < i. \<not> ?m ((e # es) ! j)" by blast
      have "i = 0"
      proof (rule ccontr)
        assume "i \<noteq> 0"
        then have "0 < i" by simp
        with i(3) have "\<not> ?m ((e # es) ! 0)" by blast
        with True show False by simp
      qed
      with i(2) show "to_step e = t" by simp
    next
      assume "to_step e = t"
      with True have "?m ((e # es) ! 0) \<and> to_step ((e # es) ! 0) = t \<and>
                (\<forall>j < (0::nat). \<not> ?m ((e # es) ! j))" by simp
      then show "\<exists>i < length (e # es). ?m ((e # es) ! i) \<and> to_step ((e # es) ! i) = t \<and>
                (\<forall>j < i. \<not> ?m ((e # es) ! j))" by (intro exI [of _ 0]) simp
    qed
    with True show ?thesis by auto
  next
    case False
    have "(\<exists>i < length (e # es). ?m ((e # es) ! i) \<and> to_step ((e # es) ! i) = t \<and>
             (\<forall>j < i. \<not> ?m ((e # es) ! j))) \<longleftrightarrow>
          (\<exists>i < length es. ?m (es ! i) \<and> to_step (es ! i) = t \<and> (\<forall>j < i. \<not> ?m (es ! j)))"
      (is "?L \<longleftrightarrow> ?R")
    proof
      assume ?L
      then obtain i where i: "i < length (e # es)" "?m ((e # es) ! i)"
        "to_step ((e # es) ! i) = t" "\<forall>j < i. \<not> ?m ((e # es) ! j)" by blast
      from i(2) False obtain k where k: "i = Suc k" by (cases i) auto
      have "\<forall>j < k. \<not> ?m (es ! j)"
      proof (intro allI impI)
        fix j assume "j < k"
        then have "Suc j < i" using k by simp
        with i(4) have "\<not> ?m ((e # es) ! Suc j)" by blast
        then show "\<not> ?m (es ! j)" by simp
      qed
      with i k show ?R by (intro exI [of _ k]) auto
    next
      assume ?R
      then obtain k where k: "k < length es" "?m (es ! k)" "to_step (es ! k) = t"
        "\<forall>j < k. \<not> ?m (es ! j)" by blast
      have "\<forall>j < Suc k. \<not> ?m ((e # es) ! j)"
      proof (intro allI impI)
        fix j assume "j < Suc k"
        then show "\<not> ?m ((e # es) ! j)" using False k(4) by (cases j) auto
      qed
      with k show ?L by (intro exI [of _ "Suc k"]) auto
    qed
    with False Cons.IH show ?thesis by auto
  qed
qed

text \<open>
  C5. For every edge list, current step and outcome, \<open>Router.next_step\<close> returns the target
  of the first edge in declaration order that leaves the current step and whose condition
  is \<open>on_pass\<close> (step passed), \<open>on_fail\<close> (step failed) or \<open>always\<close>; it returns \<open>None\<close> exactly
  when no edge matches. A later matching edge, such as a second edge from the same step with
  the same condition, is never the one returned.
\<close>

theorem next_step_first_match:
  fixes edge_list :: "Edge list" and cur :: string and passed :: bool
  defines "c \<equiv> (if passed then ''on_pass'' else ''on_fail'')"
  shows "(next_step edge_list cur passed = None \<longleftrightarrow>
            (\<forall>e \<in> set edge_list. \<not> (from_step e = cur \<and> (condition e = c \<or> condition e = ''always'')))) \<and>
         (\<forall>t. next_step edge_list cur passed = Some t \<longleftrightarrow>
            (\<exists>i < length edge_list.
               from_step (edge_list ! i) = cur \<and>
               (condition (edge_list ! i) = c \<or> condition (edge_list ! i) = ''always'') \<and>
               to_step (edge_list ! i) = t \<and>
               (\<forall>j < i. \<not> (from_step (edge_list ! j) = cur \<and>
                             (condition (edge_list ! j) = c \<or> condition (edge_list ! j) = ''always'')))))"
  unfolding next_step_def Let_def c_def
  using next_step_scan_None [of edge_list cur] next_step_scan_Some [of edge_list cur] by simp

theorem next_step_first_match_witness:
  "next_step
     [\<lparr>from_step = ''a'', to_step = ''b'', condition = ''on_pass''\<rparr>,
      \<lparr>from_step = ''a'', to_step = ''c'', condition = ''on_pass''\<rparr>,
      \<lparr>from_step = ''b'', to_step = ''__end__'', condition = ''always''\<rparr>] ''a'' True = Some ''b'' \<and>
   next_step
     [\<lparr>from_step = ''a'', to_step = ''b'', condition = ''on_pass''\<rparr>,
      \<lparr>from_step = ''a'', to_step = ''c'', condition = ''on_pass''\<rparr>,
      \<lparr>from_step = ''b'', to_step = ''__end__'', condition = ''always''\<rparr>] ''a'' False = None"
proof -
  let ?es = "[\<lparr>from_step = ''a'', to_step = ''b'', condition = ''on_pass''\<rparr>,
      \<lparr>from_step = ''a'', to_step = ''c'', condition = ''on_pass''\<rparr>,
      \<lparr>from_step = ''b'', to_step = ''__end__'', condition = ''always''\<rparr>]"
  have "\<exists>i < length ?es. from_step (?es ! i) = ''a'' \<and>
          (condition (?es ! i) = ''on_pass'' \<or> condition (?es ! i) = ''always'') \<and>
          to_step (?es ! i) = ''b'' \<and>
          (\<forall>j < i. \<not> (from_step (?es ! j) = ''a'' \<and>
             (condition (?es ! j) = ''on_pass'' \<or> condition (?es ! j) = ''always'')))"
    by (intro exI [of _ 0]) simp
  then have 1: "next_step ?es ''a'' True = Some ''b''"
    using next_step_first_match [of "?es" "''a''" True] by simp
  have "\<forall>e \<in> set ?es. \<not> (from_step e = ''a'' \<and> (condition e = ''on_fail'' \<or> condition e = ''always''))"
    by simp
  then have 2: "next_step ?es ''a'' False = None"
    using next_step_first_match [of "?es" "''a''" False] by simp
  from 1 2 show ?thesis by simp
qed

section \<open>Properties of the fingerprint\<close>

lemma sort_cong_mset: "mset xs = mset ys \<Longrightarrow> sort xs = sort (ys :: string list)"
  by (metis mset_sort properties_for_sort sorted_sort)

lemma sort_keys_eq:
  assumes "distinct (dict_keys d1)" "distinct (dict_keys d2)" "set (dict_keys d1) = set (dict_keys d2)"
  shows "sort (dict_keys d1) = sort (dict_keys d2)"
  using assms by (intro sort_cong_mset) (simp add: set_eq_iff_mset_eq_distinct)

text \<open>
  C7 (as amended). For every step name, every two data dictionaries with the same key set
  (whatever the values and the insertion order) and every two lists of failed rule ids
  that are permutations of each other, \<open>compute_fingerprint\<close> returns the same string: it
  depends on the step name, the key set and the multiset of failed rule ids only. The
  lists are sorted, not deduplicated, so a repeated rule id is part of what is hashed.
\<close>

theorem compute_fingerprint_canonical:
  assumes "distinct (dict_keys d1)" and "distinct (dict_keys d2)"
    and "set (dict_keys d1) = set (dict_keys d2)"
    and "mset r1 = mset r2"
  shows "compute_fingerprint h sid d1 r1 = compute_fingerprint h sid d2 r2"
  using sort_keys_eq [OF assms(1-3)] sort_cong_mset [OF assms(4)]
  by (simp add: compute_fingerprint_def canonical_def)

theorem compute_fingerprint_canonical_witness:
  "distinct (dict_keys [(''a'', PInt 1), (''b'', PNone)]) \<and>
   distinct (dict_keys [(''b'', PStr ''x''), (''a'', PList [])]) \<and>
   set (dict_keys [(''a'', PInt 1), (''b'', PNone)]) =
     set (dict_keys [(''b'', PStr ''x''), (''a'', PList [])]) \<and>
   mset [''r2'', ''r1''] = mset [''r1'', ''r2''] \<and>
   compute_fingerprint rev ''s'' [(''a'', PInt 1), (''b'', PNone)] [''r2'', ''r1''] =
   compute_fingerprint rev ''s'' [(''b'', PStr ''x''), (''a'', PList [])] [''r1'', ''r2'']"
proof -
  have 1: "distinct (dict_keys [(''a'', PInt 1), (''b'', PNone)])"
    by (simp add: dict_keys_def)
  have 2: "distinct (dict_keys [(''b'', PStr ''x''), (''a'', PList [])])"
    by (simp add: dict_keys_def)
  have 3: "set (dict_keys [(''a'', PInt 1), (''b'', PNone)]) =
           set (dict_keys [(''b'', PStr ''x''), (''a'', PList [])])"
    by (auto simp add: dict_keys_def)
  have 4: "mset [''r2'', ''r1''] = mset [''r1'', ''r2'']"
    by (simp add: add.commute)
  from 1 2 3 4 compute_fingerprint_canonical [OF 1 2 3 4, of rev "''s''"]
  show ?thesis by blast
qed

text \<open>
  The claim as stated fails on duplicates: the lists \<open>["r"]\<close> and \<open>["r", "r"]\<close> are equal as
  sets, but the strings that are hashed differ, and so do the fingerprints under a digest
  that tells the two strings apart (here the digest that drops the first 35 characters).
\<close>

theorem compute_fingerprint_duplicates_counterexample:
  "set [''r''] = set [''r'', ''r''] \<and>
   canonical ''s'' [] [''r''] \<noteq> canonical ''s'' [] [''r'', ''r''] \<and>
   compute_fingerprint (drop 35) ''s'' [] [''r''] \<noteq>
   compute_fingerprint (drop 35) ''s'' [] [''r'', ''r'']"
  by (simp add: compute_fingerprint_def canonical_def json_str_list_def json_str_def
                json_char_def dict_keys_def)

section \<open>Properties of the spec evaluator\<close>

lemma intake_pre_pure: "snd (intake_pre c) = c"
  by (simp add: intake_pre_def Let_def)
lemma intake_post_pure: "snd (intake_post c) = c"
  by (simp add: intake_post_def Let_def split: sum.splits)
lemma extract_pre_pure: "snd (extract_pre c) = c"
  by (simp add: extract_pre_def Let_def split: sum.splits)
lemma extract_post_pure: "snd (extract_post c) = c"
  by (simp add: extract_post_def Let_def split: sum.splits pyval.splits)
lemma write_pre_pure: "snd (write_pre c) = c"
  by (simp add: write_pre_def Let_def split: sum.splits)
lemma write_post_pure: "snd (write_post c) = c"
  by (simp add: write_post_def Let_def split: sum.splits)
lemma global_invariant_pure: "snd (global_invariant c) = c"
  by (simp add: global_invariant_def)
lemma pipeline_progress_pure: "snd (pipeline_progress c) = c"
  by (simp add: pipeline_progress_def Let_def)

lemmas registered_pure = intake_pre_pure intake_post_pure extract_pre_pure extract_post_pure
  write_pre_pure write_post_pure global_invariant_pure pipeline_progress_pure

lemma SPEC_REGISTRY_pure: "map_of SPEC_REGISTRY n = Some fn \<Longrightarrow> snd (fn c) = c"
  by (auto simp add: SPEC_REGISTRY_def registered_pure split: if_splits)

lemma SPEC_REGISTRY_pure_all:
  "\<forall>n fn c. map_of SPEC_REGISTRY n = Some fn \<longrightarrow> snd (fn c) = c"
  using SPEC_REGISTRY_pure by blast

lemma evaluate_loop_pure:
  assumes "\<forall>n fn c. map_of R n = Some fn \<longrightarrow> snd (fn c) = c"
  shows "snd (evaluate_loop R names ctx acc) = ctx"
proof (induction names arbitrary: acc)
  case Nil
  show ?case by simp
next
  case (Cons n ns)
  show ?case
  proof (cases "map_of R n")
    case None
    then show ?thesis by (simp add: get_spec_def)
  next
    case (Some fn)
    from assms Some have "snd (fn ctx) = ctx" by blast
    then obtain o1 where fc: "fn ctx = (o1, ctx)"
      by (cases "fn ctx") auto
    show ?thesis using Some fc Cons.IH
      by (cases o1) (simp_all add: get_spec_def)
  qed
qed

lemma evaluate_loop_results:
  assumes "\<forall>n fn c. map_of R n = Some fn \<longrightarrow> snd (fn c) = c"
    and "fst (evaluate_loop R names ctx acc) = Inr rs"
  shows "\<exists>rs'. rs = acc @ rs' \<and> length rs' = length names \<and>
           (\<forall>i < length names. \<exists>fn. map_of R (names ! i) = Some fn \<and> fn ctx = (Inr (rs' ! i), ctx))"
  using assms(2)
proof (induction names arbitrary: acc)
  case Nil
  then show ?case by simp
next
  case (Cons n ns)
  show ?case
  proof (cases "map_of R n")
    case None
    with Cons.prems show ?thesis by (simp add: get_spec_def)
  next
    case (Some fn)
    from assms(1) Some have "snd (fn ctx) = ctx" by blast
    then obtain o1 where fc: "fn ctx = (o1, ctx)"
      by (cases "fn ctx") auto
    show ?thesis
    proof (cases o1)
      case (Inl e)
      with Cons.prems Some fc show ?thesis by (simp add: get_spec_def)
    next
      case (Inr r)
      with Cons.prems Some fc have "fst (evaluate_loop R ns ctx (acc @ [r])) = Inr rs"
        by (simp add: get_spec_def)
      from Cons.IH [OF this] obtain rs' where rs': "rs = (acc @ [r]) @ rs'" "length rs' = length ns"
        "\<forall>i < length ns. \<exists>fn. map_of R (ns ! i) = Some fn \<and> fn ctx = (Inr (rs' ! i), ctx)"
        by blast
      have "\<forall>i < length (n # ns). \<exists>fn. map_of R ((n # ns) ! i) = Some fn \<and>
              fn ctx = (Inr ((r # rs') ! i), ctx)"
      proof (intro allI impI)
        fix i assume "i < length (n # ns)"
        then show "\<exists>fn. map_of R ((n # ns) ! i) = Some fn \<and> fn ctx = (Inr ((r # rs') ! i), ctx)"
          using Some fc Inr rs'(3) by (cases i) auto
      qed
      with rs'(1,2) show ?thesis by (intro exI [of _ "r # rs'"]) simp
    qed
  qed
qed

lemma missing_titles_dicts:
  "\<forall>x \<in> set items. \<exists>d. x = PDict d \<Longrightarrow> \<exists>r. missing_titles i items = Inr r"
proof (induction items arbitrary: i)
  case Nil
  show ?case by simp
next
  case (Cons x xs)
  then obtain d where "x = PDict d" by auto
  moreover from Cons obtain r where "missing_titles (Suc i) xs = Inr r" by fastforce
  ultimately show ?case by simp
qed

lemma py_len_list: "is_list v \<Longrightarrow> \<exists>n. py_len v = Inr n"
  by (cases v) (simp_all add: is_list_def)

lemma dict_get_cases:
  "dict_get d k dflt = dflt \<and> map_of d k = None \<or> (\<exists>v. map_of d k = Some v \<and> dict_get d k dflt = v)"
  by (cases "map_of d k") (simp_all add: dict_get_def)

lemma registered_total:
  assumes lf: "\<forall>v. map_of (data c) ''loaded_files'' = Some v \<longrightarrow> is_list v"
    and ei: "\<forall>v. map_of (data c) ''extracted_items'' = Some v \<longrightarrow>
               (\<exists>items. v = PList items \<and> (\<forall>x \<in> set items. \<exists>d. x = PDict d))"
    and reg: "map_of SPEC_REGISTRY n = Some fn"
  shows "\<exists>r. fst (fn c) = Inr r"
proof -
  have lfl: "is_list (dict_get (data c) ''loaded_files'' (PList []))"
    using lf dict_get_cases [of "data c" "''loaded_files''" "PList []"] by (auto simp: is_list_def)
  then obtain n1 where n1: "py_len (dict_get (data c) ''loaded_files'' (PList [])) = Inr n1"
    using py_len_list by blast
  obtain items where items: "dict_get (data c) ''extracted_items'' (PList []) = PList items"
    "\<forall>x \<in> set items. \<exists>d. x = PDict d"
    using ei dict_get_cases [of "data c" "''extracted_items''" "PList []"] by auto
  obtain mt where mt: "missing_titles 0 items = Inr mt"
    using missing_titles_dicts [OF items(2)] by blast
  have 1: "\<exists>r. fst (intake_pre c) = Inr r" by (simp add: intake_pre_def Let_def)
  have 2: "\<exists>r. fst (intake_post c) = Inr r" using n1 by (simp add: intake_post_def Let_def)
  have 3: "\<exists>r. fst (extract_pre c) = Inr r" using n1 by (simp add: extract_pre_def Let_def)
  have 4: "\<exists>r. fst (extract_post c) = Inr r" using items mt by (simp add: extract_post_def)
  have 5: "\<exists>r. fst (write_pre c) = Inr r" using items by (simp add: write_pre_def Let_def)
  have 6: "\<exists>r. fst (write_post c) = Inr r"
    by (cases "dict_get (data c) ''written_files'' (PList [])")
       (simp_all add: write_post_def Let_def is_list_def)
  have 7: "\<exists>r. fst (global_invariant c) = Inr r" by (simp add: global_invariant_def)
  have 8: "\<exists>r. fst (pipeline_progress c) = Inr r" by (simp add: pipeline_progress_def Let_def)
  from reg 1 2 3 4 5 6 7 8 show ?thesis
    by (auto simp add: SPEC_REGISTRY_def split: if_splits)
qed


lemma evaluate_loop_total:
  assumes "\<forall>n fn c. map_of R n = Some fn \<longrightarrow> snd (fn c) = c"
    and "\<forall>n \<in> set names. \<exists>fn r. map_of R n = Some fn \<and> fst (fn ctx) = Inr r"
  shows "\<exists>rs. fst (evaluate_loop R names ctx acc) = Inr rs"
  using assms(2)
proof (induction names arbitrary: acc)
  case Nil
  show ?case by simp
next
  case (Cons n ns)
  then obtain fn r where fn: "map_of R n = Some fn" "fst (fn ctx) = Inr r" by auto
  from assms(1) fn(1) have "snd (fn ctx) = ctx" by blast
  with fn(2) have fc: "fn ctx = (Inr r, ctx)"
    by (cases "fn ctx") auto
  from Cons have "\<exists>rs. fst (evaluate_loop R ns ctx (acc @ [r])) = Inr rs" by simp
  with fn(1) fc show ?case by (simp add: get_spec_def)
qed

text \<open>
  What does hold of the evaluator over the registered specs, for every list of names and
  every context: the context is left unchanged, and evaluating again gives the same outcome.
  Whenever a list of results is returned, it has exactly one result per name, in the order
  of the names, the i-th being what the i-th named spec returns on the context. A list is
  returned whenever every name is registered, \<open>loaded_files\<close>, if present, is a list, and
  \<open>extracted_items\<close>, if present, is a list of dictionaries.
\<close>

theorem evaluate_specs_registered:
  "snd (evaluate_specs SPEC_REGISTRY names c) = c \<and>
   evaluate_specs SPEC_REGISTRY names (snd (evaluate_specs SPEC_REGISTRY names c)) =
     evaluate_specs SPEC_REGISTRY names c \<and>
   (\<forall>rs. fst (evaluate_specs SPEC_REGISTRY names c) = Inr rs \<longrightarrow>
      length rs = length names \<and>
      (\<forall>i < length names. \<exists>fn. map_of SPEC_REGISTRY (names ! i) = Some fn \<and>
                                 fn c = (Inr (rs ! i), c))) \<and>
   (set names \<subseteq> set (dict_keys SPEC_REGISTRY) \<and>
    (\<forall>v. map_of (data c) ''loaded_files'' = Some v \<longrightarrow> is_list v) \<and>
    (\<forall>v. map_of (data c) ''extracted_items'' = Some v \<longrightarrow>
       (\<exists>items. v = PList items \<and> (\<forall>x \<in> set items. \<exists>d. x = PDict d))) \<longrightarrow>
    (\<exists>rs. fst (evaluate_specs SPEC_REGISTRY names c) = Inr rs))"
proof (intro conjI allI impI)
  show pure: "snd (evaluate_specs SPEC_REGISTRY names c) = c"
    unfolding evaluate_specs_def by (rule evaluate_loop_pure [OF SPEC_REGISTRY_pure_all])
  then show "evaluate_specs SPEC_REGISTRY names (snd (evaluate_specs SPEC_REGISTRY names c)) =
     evaluate_specs SPEC_REGISTRY names c" by simp
next
  fix rs assume "fst (evaluate_specs SPEC_REGISTRY names c) = Inr rs"
  then have "fst (evaluate_loop SPEC_REGISTRY names c []) = Inr rs"
    by (simp add: evaluate_specs_def)
  from evaluate_loop_results [OF SPEC_REGISTRY_pure_all this]
  show "length rs = length names" by auto
next
  fix rs i assume "fst (evaluate_specs SPEC_REGISTRY names c) = Inr rs" and i: "i < length names"
  then have "fst (evaluate_loop SPEC_REGISTRY names c []) = Inr rs"
    by (simp add: evaluate_specs_def)
  from evaluate_loop_results [OF SPEC_REGISTRY_pure_all this] i
  show "\<exists>fn. map_of SPEC_REGISTRY (names ! i) = Some fn \<and> fn c = (Inr (rs ! i), c)" by auto
next
  assume a: "set names \<subseteq> set (dict_keys SPEC_REGISTRY) \<and>
    (\<forall>v. map_of (data c) ''loaded_files'' = Some v \<longrightarrow> is_list v) \<and>
    (\<forall>v. map_of (data c) ''extracted_items'' = Some v \<longrightarrow>
       (\<exists>items. v = PList items \<and> (\<forall>x \<in> set items. \<exists>d. x = PDict d)))"
  have "\<forall>n \<in> set names. \<exists>fn r. map_of SPEC_REGISTRY n = Some fn \<and> fst (fn c) = Inr r"
  proof
    fix n assume "n \<in> set names"
    with a have "n \<in> fst ` set SPEC_REGISTRY" by (auto simp add: dict_keys_def)
    then obtain fn where fn: "map_of SPEC_REGISTRY n = Some fn"
      by (metis map_of_eq_None_iff not_Some_eq)
    from registered_total [OF _ _ fn, of c] a
    show "\<exists>fn r. map_of SPEC_REGISTRY n = Some fn \<and> fst (fn c) = Inr r" using fn by blast
  qed
  from evaluate_loop_total [OF SPEC_REGISTRY_pure_all this]
  show "\<exists>rs. fst (evaluate_specs SPEC_REGISTRY names c) = Inr rs"
    by (simp add: evaluate_specs_def)
qed

theorem evaluate_specs_registered_witness:
  "\<exists>rs. fst (evaluate_specs SPEC_REGISTRY [''intake_pre'', ''extract_post'']
            \<lparr>run_id = ''run'', data = [(''input_folder'', PStr ''in''),
                (''extracted_items'', PList [PDict [(''title'', PStr ''t'')]])],
              artifacts = [], trace = [], budgets = [], config = []\<rparr>) = Inr rs \<and>
         length rs = 2"
proof -
  let ?c = "\<lparr>run_id = ''run'', data = [(''input_folder'', PStr ''in''),
                (''extracted_items'', PList [PDict [(''title'', PStr ''t'')]])],
              artifacts = [], trace = [], budgets = [], config = []\<rparr>"
  let ?n = "[''intake_pre'', ''extract_post'']"
  have h: "set ?n \<subseteq> set (dict_keys SPEC_REGISTRY) \<and>
    (\<forall>v. map_of (data ?c) ''loaded_files'' = Some v \<longrightarrow> is_list v) \<and>
    (\<forall>v. map_of (data ?c) ''extracted_items'' = Some v \<longrightarrow>
       (\<exists>items. v = PList items \<and> (\<forall>x \<in> set items. \<exists>d. x = PDict d)))"
    by (simp add: SPEC_REGISTRY_def dict_keys_def)
  from evaluate_specs_registered [of ?n ?c] h
  obtain rs where rs: "fst (evaluate_specs SPEC_REGISTRY ?n ?c) = Inr rs" by blast
  with evaluate_specs_registered [of ?n ?c] have "length rs = length ?n" by blast
  with rs show ?thesis by simp
qed

text \<open>
  C8. The claim says that \<open>evaluate_specs\<close> returns one \<open>SpecResult\<close> per registered name for
  every context. The code does not: for a context whose \<open>extracted_items\<close> is the list \<open>[5]\<close>,
  the registered spec \<open>extract_post\<close> passes its \<open>isinstance\<close> guard, calls \<open>item.get\<close> on the
  number and raises \<open>AttributeError\<close>, so that \<open>evaluate_specs\<close> returns no result at all.
\<close>

theorem evaluate_specs_raises_on_bad_items:
  "fst (evaluate_specs SPEC_REGISTRY [''extract_post'']
          \<lparr>run_id = ''run'', data = [(''extracted_items'', PList [PInt 5])],
            artifacts = [], trace = [], budgets = [], config = []\<rparr>) =
   Inl (AttributeError ([CHR 0x27] @ ''int'' @ [CHR 0x27] @ '' object has no attribute '' @
                        [CHR 0x27] @ ''get'' @ [CHR 0x27]))"
  by (simp add: evaluate_specs_def get_spec_def SPEC_REGISTRY_def extract_post_def dict_get_def)

section \<open>The run loop and its bounded unrolling\<close>

lemma run_iterations_Inl: "run_iterations n orch s = Inl r \<Longrightarrow> run_loop orch s = Some r"
proof (induction n arbitrary: s)
  case 0
  then show ?case by simp
next
  case (Suc n)
  show ?case
  proof (cases "run_iteration orch s")
    case (Inl r')
    with Suc.prems show ?thesis by (subst run_loop.simps) simp
  next
    case (Inr s')
    with Suc.prems have "run_iterations n orch s' = Inl r" by simp
    from Suc.IH [OF this] Inr show ?thesis by (subst run_loop.simps) simp
  qed
qed

lemma run_iterations_Inr: "run_iterations n orch s = Inr s' \<Longrightarrow> run_loop orch s = run_loop orch s'"
proof (induction n arbitrary: s)
  case 0
  then show ?case by simp
next
  case (Suc n)
  show ?case
  proof (cases "run_iteration orch s")
    case (Inl r')
    with Suc.prems show ?thesis by simp
  next
    case (Inr s1)
    with Suc.prems have "run_iterations n orch s1 = Inr s'" by simp
    from Suc.IH [OF this] Inr show ?thesis by (subst run_loop.simps) simp
  qed
qed

lemma run_loop_Some_iterations:
  assumes "run_loop orch s = Some r"
  shows "\<exists>n. run_iterations n orch s = Inl r"
proof (rule run_loop.raw_induct [where P = "\<lambda>orch s r. \<exists>n. run_iterations n orch s = Inl r"])
  show "run_loop orch s = Some r" by fact
next
  fix f orch s r
  assume IH: "\<And>s b y. f s b = Some y \<Longrightarrow> \<exists>n. run_iterations n s b = Inl y"
    and eq: "(case run_iteration orch s of Inl r \<Rightarrow> Some r | Inr s' \<Rightarrow> f orch s') = Some r"
  show "\<exists>n. run_iterations n orch s = Inl r"
  proof (cases "run_iteration orch s")
    case (Inl r')
    with eq have "run_iterations (Suc 0) orch s = Inl r" by simp
    then show ?thesis by blast
  next
    case (Inr s')
    with eq have "f orch s' = Some r" by simp
    from IH [OF this] obtain n where "run_iterations n orch s' = Inl r" by blast
    with Inr have "run_iterations (Suc n) orch s = Inl r" by simp
    then show ?thesis by blast
  qed
qed

lemma run_loop_Some_iff:
  "run_loop orch s = Some r \<longleftrightarrow> (\<exists>n. run_iterations n orch s = Inl r)"
  using run_loop_Some_iterations run_iterations_Inl by blast







section \<open>Properties of a single step attempt\<close>





section \<open>Properties of a whole run\<close>





section \<open>The step budget\<close>

text \<open>
  C4. The claim says that the budget check raises \<open>BudgetExhaustedError("max_total_steps")\<close>
  exactly when the number of passed steps has reached the budget. The check compares with
  \<open>context.budgets.get("max_total_steps", 20)\<close>, but builds the error from
  \<open>context.budgets["max_total_steps"]\<close>. For a context whose budgets lack that key, a step
  that passes and leads back to itself is run 20 times; the check then raises \<open>KeyError\<close>
  instead of the budget error, and the run fails with the message \<open>'max_total_steps'\<close>.
\<close>

theorem missing_budget_key_raises_KeyError:
  "run \<lparr>manifest = \<lparr>m_name = ''m'', description = PNone, version = PNone, entry_step = ''a'',
            steps = [(''a'', \<lparr>name = ''a'', agent_name = ''ok'', pre_specs = [], post_specs = [],
                               invariant_specs = [], retry = \<lparr>max_attempts = 1\<rparr>\<rparr>)],
            edges = [\<lparr>from_step = ''a'', to_step = ''a'', condition = ''on_pass''\<rparr>],
            defaults = PNone, m_budgets = PNone\<rparr>,
          spec_registry = [], agent_registry = [(''ok'', \<lambda>c w. (None, c, w))],
          sha256_hexdigest = id, insert_item = (\<lambda>r d. None)\<rparr>
       \<lparr>run_id = ''run'', data = [], artifacts = [], trace = [],
          budgets = [(''max_retries_per_step'', 3)], config = []\<rparr> () =
     Some (Inr \<lparr>r_run_id = ''run'', manifest_name = ''m'', r_status = Run_Failed,
                r_steps = replicate 20
                            \<lparr>step_id = ''a'', agent_id = ''ok'', attempt = 1, status = Passed,
                             pre_results = [], post_results = [], invariant_results = [],
                             context_before = [], context_after = [], fingerprint = [],
                             error = None\<rparr>,
                r_error = Some ([CHR 0x27] @ ''max_total_steps'' @ [CHR 0x27]),
                input_folder = PStr [], output_folder = PStr [],
                model_name = PStr ''gpt-4o''\<rparr>,
           \<lparr>run_id = ''run'', data = [], artifacts = [], trace = [],
              budgets = [(''max_retries_per_step'', 3)], config = []\<rparr>, ()) \<and>
   exn_str (BudgetExhaustedError ''max_total_steps'' 20) \<noteq>
     [CHR 0x27] @ ''max_total_steps'' @ [CHR 0x27]"
proof -
  let ?sd = "\<lparr>name = ''a'', agent_name = ''ok'', pre_specs = [], post_specs = [],
              invariant_specs = [], retry = \<lparr>max_attempts = 1\<rparr>\<rparr>"
  let ?o = "\<lparr>manifest = \<lparr>m_name = ''m'', description = PNone, version = PNone, entry_step = ''a'',
                  steps = [(''a'', ?sd)],
                  edges = [\<lparr>from_step = ''a'', to_step = ''a'', condition = ''on_pass''\<rparr>],
                  defaults = PNone, m_budgets = PNone\<rparr>,
                spec_registry = [], agent_registry = [(''ok'', \<lambda>c w. (None, c, w))],
                sha256_hexdigest = id, insert_item = (\<lambda>r d. None)\<rparr> :: unit Orchestrator"
  let ?c = "\<lparr>run_id = ''run'', data = [], artifacts = [], trace = [],
                budgets = [(''max_retries_per_step'', 3)], config = []\<rparr>"
  let ?att = "\<lparr>step_id = ''a'', agent_id = ''ok'', attempt = 1, status = Passed,
               pre_results = [], post_results = [], invariant_results = [],
               context_before = [], context_after = [], fingerprint = [], error = None\<rparr>"
  define orch where "orch = ?o"
  define c where "c = ?c"
  define att where "att = ?att"
  have step: "run_iteration orch (Some ''a'', c, (), [], k, rs) =
                Inr (Some ''a'', c, (), [], k + 1, rs @ [att])" if "k < 20" for k rs
    using that unfolding orch_def c_def att_def
    by (simp add: run_iteration_def execute_step_attempt_def agent_stage_def post_stage_def
                  invariant_stage_def get_agent_def next_step_def dict_get_def snapshot_data_def
                  Let_def upto.simps)
  have iter: "run_iterations n orch (Some ''a'', c, (), [], k, rs) =
                Inr (Some ''a'', c, (), [], k + int n, rs @ replicate n att)"
    if "k + int n \<le> 20" for n k rs
    using that
  proof (induction n arbitrary: k rs)
    case 0
    show ?case by simp
  next
    case (Suc n)
    from Suc.prems have k: "k < 20" by simp
    from Suc.prems have "(k + 1) + int n \<le> 20" by simp
    from Suc.IH [OF this, of "rs @ [att]"]
    have ih: "run_iterations n orch (Some ''a'', c, (), [], k + 1, rs @ [att]) =
                Inr (Some ''a'', c, (), [], k + int (Suc n), rs @ replicate (Suc n) att)"
      by (simp add: add.assoc add.commute)
    show ?case by (simp only: run_iterations.simps step [OF k] sum.case ih)
  qed
  have reach: "run_iterations 20 orch (Some ''a'', c, (), [], 0, []) =
                 Inr (Some ''a'', c, (), [], 20, replicate 20 att)"
    using iter [of 0 20 "[]"] by simp
  have last: "run_iteration orch (Some ''a'', c, (), [], 20, replicate 20 att) =
                Inl (Some (KeyError ''max_total_steps''), replicate 20 att, c, ())"
    unfolding orch_def c_def by (simp add: run_iteration_def dict_get_def)
  have "run_loop orch (Some ''a'', c, (), [], 20, replicate 20 att) =
          Some (Some (KeyError ''max_total_steps''), replicate 20 att, c, ())"
    by (subst run_loop.simps) (simp add: last)
  with run_iterations_Inr [OF reach]
  have "run_loop orch (Some ''a'', c, (), [], 0, []) =
          Some (Some (KeyError ''max_total_steps''), replicate 20 att, c, ())" by simp
  moreover have "entry_step (manifest orch) = ''a''" by (simp add: orch_def)
  ultimately have "run orch c () =
     Some (Inr \<lparr>r_run_id = ''run'', manifest_name = ''m'', r_status = Run_Failed,
                r_steps = replicate 20 att,
                r_error = Some ([CHR 0x27] @ ''max_total_steps'' @ [CHR 0x27]),
                input_folder = PStr [], output_folder = PStr [],
                model_name = PStr ''gpt-4o''\<rparr>, c, ())"
    by (simp add: run_def repr_str_def repr_quote_def repr_char_def Let_def dict_get_def)
       (simp add: orch_def c_def)
  moreover have "exn_str (BudgetExhaustedError ''max_total_steps'' 20) \<noteq>
     [CHR 0x27] @ ''max_total_steps'' @ [CHR 0x27]"
    by simp
  ultimately show ?thesis unfolding orch_def c_def att_def by simp
qed

section \<open>Retries of a failing step\<close>






section \<open>Termination of a run and its final record\<close>


















end
